theory Spec2Isabelle
  imports Main "HOL-Library.AList" "HOL-Library.Multiset"
begin

section \<open>Data model\<close>

text \<open>
  The trading system keeps its bars in pandas DataFrames. A frame is modelled by its
  row labels (\<open>index\<close>, the bar timestamps) and its named columns, in column order.
  A cell is \<open>Some x\<close> for a number and \<open>None\<close> for not-a-number. The numbers are of
  any linearly ordered ring: the code only compares them and stores \<open>0\<close>, \<open>1\<close>
  and \<open>-1\<close>.
\<close>

datatype error = KeyError string | ValueError string | IndexError | LibraryError string

record ('k, 'a) dataframe =
  index :: "'k list"
  columns :: "(string \<times> 'a option list) list"

text \<open>
  Frames are objects: \<open>df.copy()\<close> makes a new one and \<open>result[...] = ...\<close> changes one in
  place. The store maps the address of every object to its current value; the
  addresses below \<open>next_free\<close> are the ones in use.
\<close>

record ('k, 'a) store =
  frames :: "nat \<Rightarrow> ('k, 'a) dataframe"
  next_free :: nat

text \<open>The fields of a \<open>MACDStrategy\<close> object (src/strategy.py, lines 27 to 33).\<close>

record strategy =
  fast_period :: int
  slow_period :: int
  signal_period :: int
  position :: int
  last_signal :: "int option"

subsection \<open>Comparisons of cells\<close>

text \<open>\<open>pd.isna\<close>, and the four comparisons of Python floats: each is false on not-a-number.\<close>

definition isna :: "'a option \<Rightarrow> bool" where
  "isna c = (c = None)"

fun fle :: "'a::linorder option \<Rightarrow> 'a option \<Rightarrow> bool" where
  "fle (Some x) (Some y) = (x \<le> y)"
| "fle _ _ = False"

fun flt :: "'a::linorder option \<Rightarrow> 'a option \<Rightarrow> bool" where
  "flt (Some x) (Some y) = (x < y)"
| "flt _ _ = False"

definition fge :: "'a::linorder option \<Rightarrow> 'a option \<Rightarrow> bool" where
  "fge a b = fle b a"

definition fgt :: "'a::linorder option \<Rightarrow> 'a option \<Rightarrow> bool" where
  "fgt a b = flt b a"

subsection \<open>Frame operations\<close>

text \<open>\<open>df[name]\<close>: the column, or KeyError.\<close>

definition get_column :: "('k, 'a) dataframe \<Rightarrow> string \<Rightarrow> error + 'a option list" where
  "get_column df name = (case map_of (columns df) name of
      None \<Rightarrow> Inl (KeyError name)
    | Some xs \<Rightarrow> Inr xs)"

text \<open>\<open>df[name] = values\<close>: replaces the column where it exists, appends it otherwise.\<close>

definition set_column :: "string \<Rightarrow> 'a option list \<Rightarrow> ('k, 'a) dataframe \<Rightarrow> ('k, 'a) dataframe" where
  "set_column name vals df = df\<lparr>columns := AList.update name vals (columns df)\<rparr>"

text \<open>
  \<open>df[name].iloc[i]\<close>. In \<open>generate_signals\<close> the columns read this way were assigned a
  few lines before and \<open>i\<close> is below \<open>len(result)\<close>, so neither KeyError nor IndexError
  arises there.
\<close>

definition iloc :: "('k, 'a) dataframe \<Rightarrow> string \<Rightarrow> nat \<Rightarrow> 'a option" where
  "iloc df name i = (case map_of (columns df) name of None \<Rightarrow> None | Some xs \<Rightarrow> xs ! i)"

text \<open>
  \<open>df.loc[label, name] = v\<close> writes \<open>v\<close> into column \<open>name\<close> at every row labelled
  \<open>label\<close>: one row when the labels are distinct, several when a label repeats.
\<close>

definition loc_write :: "'k list \<Rightarrow> 'k \<Rightarrow> 'a \<Rightarrow> 'a option list \<Rightarrow> 'a option list" where
  "loc_write idx label v xs = map2 (\<lambda>k x. if k = label then Some v else x) idx xs"

definition loc_set :: "'k \<Rightarrow> string \<Rightarrow> 'a \<Rightarrow> ('k, 'a) dataframe \<Rightarrow> ('k, 'a) dataframe" where
  "loc_set label name v df =
     df\<lparr>columns := map (\<lambda>(n, xs). if n = name then (n, loc_write (index df) label v xs) else (n, xs))
                        (columns df)\<rparr>"

text \<open>In-place change of the object at address \<open>r\<close>; \<open>df.copy()\<close> allocates a new object.\<close>

definition upd :: "nat \<Rightarrow> (('k, 'a) dataframe \<Rightarrow> ('k, 'a) dataframe) \<Rightarrow> ('k, 'a) store \<Rightarrow> ('k, 'a) store" where
  "upd r f st = st\<lparr>frames := (frames st)(r := f (frames st r))\<rparr>"

definition copy_frame :: "nat \<Rightarrow> ('k, 'a) store \<Rightarrow> ('k, 'a) store \<times> nat" where
  "copy_frame a st =
     (st\<lparr>frames := (frames st)(next_free st := frames st a), next_free := Suc (next_free st)\<rparr>,
      next_free st)"

section \<open>MACDStrategy (src/strategy.py)\<close>


text \<open>
  \<open>calculate_macd\<close> hands the prices and the three periods to \<open>talib.MACD\<close> and wraps the
  three arrays it returns in Series over the index of the prices. The indicator library
  is not part of the repository: it is the parameter \<open>talib\<close>, which returns three
  arrays or raises. \<open>pd.Series(values, index=...)\<close> raises ValueError when the two
  lengths differ.
\<close>

type_synonym 'a macd_lib =
  "'a option list \<Rightarrow> int \<Rightarrow> int \<Rightarrow> int \<Rightarrow> error + ('a option list \<times> 'a option list \<times> 'a option list)"

definition series :: "'a option list \<Rightarrow> 'k list \<Rightarrow> error + 'a option list" where
  "series vals idx =
     (if length vals = length idx then Inr vals else Inl (ValueError ''Length of values does not match length of index''))"

definition calculate_macd ::
  "'a macd_lib \<Rightarrow> strategy \<Rightarrow> 'k list \<Rightarrow> 'a option list
     \<Rightarrow> error + ('a option list \<times> 'a option list \<times> 'a option list)" where
  "calculate_macd talib self idx prices =
     (case talib prices (fast_period self) (slow_period self) (signal_period self) of
        Inl e \<Rightarrow> Inl e
      | Inr (macd_line, signal_line, histogram) \<Rightarrow>
          (case series macd_line idx of Inl e \<Rightarrow> Inl e | Inr m \<Rightarrow>
           (case series signal_line idx of Inl e \<Rightarrow> Inl e | Inr s \<Rightarrow>
            (case series histogram idx of Inl e \<Rightarrow> Inl e | Inr h \<Rightarrow> Inr (m, s, h)))))"

text \<open>
  One pass of the loop of \<open>generate_signals\<close> (lines 85 to 106), on the frame \<open>result\<close>
  and the strategy object.
\<close>

definition signal_step ::
  "nat \<Rightarrow> ('k, 'a::linordered_idom) dataframe \<times> strategy \<Rightarrow> ('k, 'a) dataframe \<times> strategy" where
  "signal_step i = (\<lambda>(result, self).
     let current_macd = iloc result ''MACD'' i;
         current_signal = iloc result ''MACD_Signal'' i;
         prev_macd = iloc result ''MACD'' (i - 1);
         prev_signal = iloc result ''MACD_Signal'' (i - 1)
     in if isna current_macd \<or> isna current_signal \<or> isna prev_macd \<or> isna prev_signal
        then (result, self)
        else if fle prev_macd prev_signal \<and> fgt current_macd current_signal then
          (let result1 = loc_set (index result ! i) ''Signal'' 1 result;
               self1 = self\<lparr>position := 1\<rparr>
           in (loc_set (index result1 ! i) ''Position'' (of_int (position self1)) result1, self1))
        else if fge prev_macd prev_signal \<and> flt current_macd current_signal then
          (let result1 = loc_set (index result ! i) ''Signal'' (- 1) result;
               self1 = self\<lparr>position := - 1\<rparr>
           in (loc_set (index result1 ! i) ''Position'' (of_int (position self1)) result1, self1))
        else (loc_set (index result ! i) ''Position'' (of_int (position self)) result, self))"

text \<open>
  The same pass on the store: it reads and changes the frame at the address \<open>r\<close> of
  \<open>result\<close>, and the strategy object.
\<close>

definition signal_pass ::
  "nat \<Rightarrow> nat \<Rightarrow> ('k, 'a::linordered_idom) store \<times> strategy \<Rightarrow> ('k, 'a) store \<times> strategy" where
  "signal_pass r i = (\<lambda>(st, self).
     let (result, self') = signal_step i (frames st r, self)
     in (upd r (\<lambda>_. result) st, self'))"

text \<open>
  \<open>generate_signals(self, df)\<close>: \<open>a\<close> is the address of the caller's frame. The copy is
  made first; every assignment and every pass of the loop changes the object at the
  address \<open>r\<close> of the copy. The result is the strategy object as the loop leaves it,
  the store, and the address of the returned frame.
\<close>

definition generate_signals ::
  "'a macd_lib \<Rightarrow> strategy \<Rightarrow> ('k, 'a::linordered_idom) store \<Rightarrow> nat
     \<Rightarrow> error + (strategy \<times> ('k, 'a) store \<times> nat)" where
  "generate_signals talib self st a =
     (let (st1, r) = copy_frame a st
      in case get_column (frames st1 a) ''Close'' of
           Inl e \<Rightarrow> Inl e
         | Inr close \<Rightarrow>
           (case calculate_macd talib self (index (frames st1 a)) close of
              Inl e \<Rightarrow> Inl e
            | Inr (macd_line, signal_line, histogram) \<Rightarrow>
               let st2 = upd r (set_column ''MACD'' macd_line) st1;
                   st3 = upd r (set_column ''MACD_Signal'' signal_line) st2;
                   st4 = upd r (set_column ''MACD_Histogram'' histogram) st3;
                   st5 = upd r (\<lambda>d. set_column ''Signal'' (replicate (length (index d)) (Some 0)) d) st4;
                   st6 = upd r (\<lambda>d. set_column ''Position'' (replicate (length (index d)) (Some 0)) d) st5;
                   (st7, self') = fold (signal_pass r) [1 ..< length (index (frames st6 r))] (st6, self)
               in Inr (self', st7, r)))"

section \<open>BacktestRunner (src/backtest.py)\<close>

subsection \<open>Preparing the data\<close>







subsection \<open>The strategy of the backtest\<close>

text \<open>
  \<open>MACDBacktestStrategy.next\<close> (lines 81 to 107). The backtesting library shows the
  strategy the bars and the indicator arrays up to the current bar, so \<open>len(self.data)\<close>
  is the length of \<open>signals\<close>, the part of the Signal column seen so far; \<open>pos\<close> is the
  truth value of \<open>self.position\<close>. The result is the order the call places, if any.
\<close>

datatype 'p order = Buy 'p | ClosePosition

definition strategy_next ::
  "int \<Rightarrow> int \<Rightarrow> int \<Rightarrow> 'p \<Rightarrow> 'a::linordered_idom option list \<Rightarrow> bool \<Rightarrow> error + 'p order option" where
  "strategy_next fast slow sig position_size signals pos =
     (if int (length signals) < max fast (max slow sig) + 10 then Inr None
      else case rev signals of
        [] \<Rightarrow> Inl IndexError
      | current_signal # earlier \<Rightarrow>
          let prev_signal = (case earlier of [] \<Rightarrow> Some 0 | p # _ \<Rightarrow> p)
          in if isna current_signal then Inr None
             else if current_signal = Some 1 \<and> prev_signal \<noteq> Some 1 then
               (if \<not> pos then Inr (Some (Buy position_size)) else Inr None)
             else if current_signal = Some (- 1) \<and> prev_signal \<noteq> Some (- 1) then
               (if pos then Inr (Some ClosePosition) else Inr None)
             else Inr None)"

text \<open>
  Modelled from the spec: the broker of the backtesting library, which is not under src/.
  A buy order is filled or turned down (\<open>fill_buy\<close> gives the cash left, or nothing); a
  fill opens one trade. Closing the position sells everything held (\<open>fill_close\<close> gives
  the cash after the sale) and leaves no trade open. \<open>self.position\<close> is true while a
  trade is open.
\<close>

record 'c account =
  cash :: 'c
  open_trades :: nat

definition sim_step ::
  "int \<Rightarrow> int \<Rightarrow> int \<Rightarrow> 'p \<Rightarrow> ('p \<Rightarrow> 'c \<Rightarrow> 'c option) \<Rightarrow> ('c \<Rightarrow> 'c)
     \<Rightarrow> 'a::linordered_idom option list \<Rightarrow> 'c account \<Rightarrow> error + 'c account" where
  "sim_step fast slow sig position_size fill_buy fill_close signals acct =
     (case strategy_next fast slow sig position_size signals (0 < open_trades acct) of
        Inl e \<Rightarrow> Inl e
      | Inr None \<Rightarrow> Inr acct
      | Inr (Some (Buy psize)) \<Rightarrow>
          (case fill_buy psize (cash acct) of
             None \<Rightarrow> Inr acct
           | Some c \<Rightarrow> Inr \<lparr>cash = c, open_trades = Suc (open_trades acct)\<rparr>)
      | Inr (Some ClosePosition) \<Rightarrow> Inr \<lparr>cash = fill_close (cash acct), open_trades = 0\<rparr>)"

text \<open>
  The run: bar after bar, each call of \<open>next\<close> sees one more entry of the Signal column.
  \<open>sim_run\<close> makes the calls for the bar counts in the list it is given, \<open>simulate\<close>
  for every bar from the first (the library starts later, after the warm-up of the
  indicators, where the Signal column holds \<open>0\<close>).
\<close>

fun sim_run ::
  "int \<Rightarrow> int \<Rightarrow> int \<Rightarrow> 'p \<Rightarrow> ('p \<Rightarrow> 'c \<Rightarrow> 'c option) \<Rightarrow> ('c \<Rightarrow> 'c)
     \<Rightarrow> 'a::linordered_idom option list \<Rightarrow> nat list \<Rightarrow> 'c account \<Rightarrow> error + 'c account" where
  "sim_run fast slow sig position_size fill_buy fill_close signals [] acct = Inr acct"
| "sim_run fast slow sig position_size fill_buy fill_close signals (k # ks) acct =
     (case sim_step fast slow sig position_size fill_buy fill_close (take k signals) acct of
        Inl e \<Rightarrow> Inl e
      | Inr acct' \<Rightarrow> sim_run fast slow sig position_size fill_buy fill_close signals ks acct')"

definition simulate ::
  "int \<Rightarrow> int \<Rightarrow> int \<Rightarrow> 'p \<Rightarrow> ('p \<Rightarrow> 'c \<Rightarrow> 'c option) \<Rightarrow> ('c \<Rightarrow> 'c)
     \<Rightarrow> 'a::linordered_idom option list \<Rightarrow> 'c \<Rightarrow> error + 'c account" where
  "simulate fast slow sig position_size fill_buy fill_close signals c0 =
     sim_run fast slow sig position_size fill_buy fill_close signals [1 ..< Suc (length signals)]
       \<lparr>cash = c0, open_trades = 0\<rparr>"

subsection \<open>The parameter grid of the optimizer\<close>




section \<open>Example inputs\<close>

text \<open>
  A strategy object as \<open>MACDStrategy()\<close> makes it, and a store with a frame of six
  bars at address \<open>0\<close>, the frame of its first four bars at address \<open>1\<close>, and at
  address \<open>2\<close> a frame with the same row labels and close prices next to other
  columns. Three
  indicator libraries stand for what \<open>talib.MACD\<close> may return: each gives, for
  \<open>n\<close> prices, the first \<open>n\<close> values of fixed lines that start with
  not-a-number, as a moving average does. With \<open>cross_lib\<close> the lines cross at every
  bar from the fourth on. With \<open>tie_lib\<close> the MACD line is below the signal line at
  the third bar, above it at the fourth, on it at the fifth and above it at the sixth.
  With \<open>trend_lib\<close> the MACD line stays above the signal line until it falls below it
  at the sixth bar.
\<close>

definition example_strategy :: strategy where
  "example_strategy =
     \<lparr>fast_period = 12, slow_period = 26, signal_period = 9, position = 0, last_signal = None\<rparr>"

definition example_frame :: "(nat, int) dataframe" where
  "example_frame =
     \<lparr>index = [1, 2, 3, 4, 5, 6],
      columns = [(''Close'', [Some 10, Some 10, Some 10, Some 12, Some 11, Some 13])]\<rparr>"

definition example_prefix :: "(nat, int) dataframe" where
  "example_prefix =
     \<lparr>index = [1, 2, 3, 4],
      columns = [(''Close'', [Some 10, Some 10, Some 10, Some 12])]\<rparr>"

definition example_volume :: "(nat, int) dataframe" where
  "example_volume =
     \<lparr>index = [1, 2, 3, 4, 5, 6],
      columns = [(''Volume'', [Some 7, Some 7, Some 8, Some 9, Some 7, Some 8]),
                 (''Close'', [Some 10, Some 10, Some 10, Some 12, Some 11, Some 13]),
                 (''Signal'', [Some 1, Some 1, Some 1, Some 1, Some 1, Some 1])]\<rparr>"

definition example_store :: "(nat, int) store" where
  "example_store =
     \<lparr>frames = (\<lambda>_. \<lparr>index = [], columns = []\<rparr>)
                 (0 := example_frame, 1 := example_prefix, 2 := example_volume),
      next_free = 3\<rparr>"

definition cross_lib :: "int macd_lib" where
  "cross_lib prices fast slow sig =
     Inr (take (length prices) [None, None, Some 0, Some 1, Some 0, Some 1],
          take (length prices) [None, None, Some 1, Some 0, Some 1, Some 0],
          take (length prices) [None, None, Some (- 1), Some 1, Some (- 1), Some 1])"

definition tie_lib :: "int macd_lib" where
  "tie_lib prices fast slow sig =
     Inr (take (length prices) [None, None, Some 0, Some 1, Some 0, Some 1],
          take (length prices) [None, None, Some 1, Some 0, Some 0, Some 0],
          take (length prices) [None, None, Some (- 1), Some 1, Some 0, Some 1])"

definition trend_lib :: "int macd_lib" where
  "trend_lib prices fast slow sig =
     Inr (take (length prices) [None, None, Some 1, Some 2, Some 1, Some 0],
          take (length prices) [None, None, Some 0, Some 0, Some 0, Some 1],
          take (length prices) [None, None, Some 1, Some 2, Some 1, Some (- 1)])"

text \<open>
  A run of signals for the backtest, a broker that fills a buy order when the cash
  covers it, and bars with an index out of order and prices that are not positive.
\<close>

definition example_signals :: "int option list" where
  "example_signals =
     [Some 0, Some 0, Some 0, Some 0, Some 0, Some 0, Some 0, Some 0, Some 0, Some 0, Some 0, Some 0,
      Some 1, Some 1, Some 0, Some 1, Some (- 1), Some (- 1), Some 1]"

definition example_fill_buy :: "int \<Rightarrow> int \<Rightarrow> int option" where
  "example_fill_buy psize c = (if psize \<le> c then Some (c - psize) else None)"

definition example_fill_close :: "int \<Rightarrow> int" where
  "example_fill_close c = c + 9"


section \<open>Notions used in the statements\<close>

text \<open>
  What \<open>generate_signals\<close> returns is a store and an address; the statements below
  speak of the columns of the returned frame.
\<close>

definition result_column ::
  "'a macd_lib \<Rightarrow> strategy \<Rightarrow> ('k, 'a::linordered_idom) store \<Rightarrow> nat \<Rightarrow> string \<Rightarrow> error + 'a option list" where
  "result_column talib self st a name =
     (case generate_signals talib self st a of
        Inl e \<Rightarrow> Inl e
      | Inr (self', st', r) \<Rightarrow> get_column (frames st' r) name)"

text \<open>
  The value a pass writes into the Signal column when it reads the four cells
  \<open>prev_macd\<close>, \<open>prev_signal\<close>, \<open>current_macd\<close>, \<open>current_signal\<close> (\<open>0\<close>: it writes
  nothing), and the same at bar \<open>i\<close> of two columns.
\<close>

definition crossing :: "'a::linorder option \<Rightarrow> 'a option \<Rightarrow> 'a option \<Rightarrow> 'a option \<Rightarrow> int" where
  "crossing prev_macd prev_signal current_macd current_signal =
     (if isna current_macd \<or> isna current_signal \<or> isna prev_macd \<or> isna prev_signal then 0
      else if fle prev_macd prev_signal \<and> fgt current_macd current_signal then 1
      else if fge prev_macd prev_signal \<and> flt current_macd current_signal then - 1
      else 0)"

definition cross_at :: "'a::linorder option list \<Rightarrow> 'a option list \<Rightarrow> nat \<Rightarrow> int" where
  "cross_at m s i = crossing (m ! (i - 1)) (s ! (i - 1)) (m ! i) (s ! i)"

definition defined_at :: "'a option list \<Rightarrow> 'a option list \<Rightarrow> nat \<Rightarrow> bool" where
  "defined_at m s i = (\<not> (isna (m ! i) \<or> isna (s ! i) \<or> isna (m ! (i - 1)) \<or> isna (s ! (i - 1))))"

text \<open>The position the strategy object holds after the passes \<open>1, ..., i\<close>.\<close>

primrec run_position :: "int \<Rightarrow> 'a::linorder option list \<Rightarrow> 'a option list \<Rightarrow> nat \<Rightarrow> int" where
  "run_position p m s 0 = p"
| "run_position p m s (Suc i) =
     (if cross_at m s (Suc i) \<noteq> 0 then cross_at m s (Suc i) else run_position p m s i)"

text \<open>
  The crossover rule: at a bar whose four cells are numbers, Buy is written exactly on
  an upward crossing and Sell exactly on a downward one, whatever was written before.
  The alternation rule: two equal non-hold signals have a different non-hold signal
  between them, provided that from the first to the bar before the second both lines
  are numbers and never equal.
\<close>

definition crossover_rule :: "'a::linordered_idom option list \<Rightarrow> 'a option list \<Rightarrow> 'a option list \<Rightarrow> bool" where
  "crossover_rule m s sg =
     (\<forall>i pm ps cm cs.
        1 \<le> i \<and> i < length sg \<and>
        m ! (i - 1) = Some pm \<and> s ! (i - 1) = Some ps \<and> m ! i = Some cm \<and> s ! i = Some cs \<longrightarrow>
          (sg ! i = Some 1 \<longleftrightarrow> pm \<le> ps \<and> cm > cs) \<and>
          (sg ! i = Some (- 1) \<longleftrightarrow> pm \<ge> ps \<and> cm < cs) \<and>
          (sg ! i = Some 0 \<longleftrightarrow> \<not> (pm \<le> ps \<and> cm > cs) \<and> \<not> (pm \<ge> ps \<and> cm < cs)))"

definition alternation_rule :: "'a::linordered_idom option list \<Rightarrow> 'a option list \<Rightarrow> 'a option list \<Rightarrow> bool" where
  "alternation_rule m s sg =
     (\<forall>i j. i < j \<and> j < length sg \<and> sg ! i = sg ! j \<and> sg ! i \<noteq> Some 0 \<and>
            (\<forall>k. i \<le> k \<and> k < j \<longrightarrow> m ! k \<noteq> None \<and> s ! k \<noteq> None \<and> m ! k \<noteq> s ! k) \<longrightarrow>
        (\<exists>k. i < k \<and> k < j \<and> sg ! k \<noteq> Some 0 \<and> sg ! k \<noteq> sg ! i))"

text \<open>
  The frame as it is when the loop starts, and what holds of the frame and of the
  strategy object once the passes below \<open>k\<close> are done (for distinct row labels).
\<close>

definition init_frame ::
  "('k, 'a::linordered_idom) dataframe \<Rightarrow> 'a option list \<Rightarrow> 'a option list \<Rightarrow> 'a option list \<Rightarrow> ('k, 'a) dataframe" where
  "init_frame df m s h =
     set_column ''Position'' (replicate (length (index df)) (Some 0))
       (set_column ''Signal'' (replicate (length (index df)) (Some 0))
         (set_column ''MACD_Histogram'' h (set_column ''MACD_Signal'' s (set_column ''MACD'' m df))))"

definition loop_inv ::
  "'k list \<Rightarrow> 'a::linordered_idom option list \<Rightarrow> 'a option list \<Rightarrow> strategy \<Rightarrow> nat
     \<Rightarrow> ('k, 'a) dataframe \<times> strategy \<Rightarrow> bool" where
  "loop_inv idx m s slf0 k = (\<lambda>(d, slf).
     index d = idx \<and>
     map_of (columns d) ''MACD'' = Some m \<and>
     map_of (columns d) ''MACD_Signal'' = Some s \<and>
     (\<exists>sg. map_of (columns d) ''Signal'' = Some sg \<and> length sg = length idx \<and>
        (\<forall>j < length idx. sg ! j = Some (if 1 \<le> j \<and> j < k then of_int (cross_at m s j) else 0))) \<and>
     (\<exists>ps. map_of (columns d) ''Position'' = Some ps \<and> length ps = length idx \<and>
        (\<forall>j < length idx. ps ! j =
           Some (if 1 \<le> j \<and> j < k \<and> defined_at m s j then of_int (run_position (position slf0) m s j) else 0))) \<and>
     slf = slf0\<lparr>position := run_position (position slf0) m s (k - 1)\<rparr>)"

text \<open>The strategy object as \<open>generate_signals\<close> leaves it.\<close>

definition final_strategy ::
  "'a macd_lib \<Rightarrow> strategy \<Rightarrow> ('k, 'a::linordered_idom) store \<Rightarrow> nat \<Rightarrow> error + strategy" where
  "final_strategy talib self st a =
     (case generate_signals talib self st a of
        Inl e \<Rightarrow> Inl e
      | Inr (self', st', r) \<Rightarrow> Inr self')"


text \<open>The five columns \<open>generate_signals\<close> assigns.\<close>

definition computed_columns :: "string list" where
  "computed_columns = [''MACD'', ''MACD_Signal'', ''MACD_Histogram'', ''Signal'', ''Position'']"



section \<open>Lemmas on frames and on the loop\<close>

lemma map_of_set_column:
  "map_of (columns (set_column n v d)) = (map_of (columns d))(n \<mapsto> v)"
  by (simp add: set_column_def update_conv')

lemma index_set_column: "index (set_column n v d) = index d"
  by (simp add: set_column_def)

lemma map_of_map_entry:
  "map_of (map (\<lambda>(n', xs). if n' = n then (n', f xs) else (n', xs)) al) k =
     (if k = n then map_option f (map_of al k) else map_of al k)"
  by (induction al) auto

lemma map_of_loc_set:
  "map_of (columns (loc_set l n v d)) k =
     (if k = n then map_option (loc_write (index d) l v) (map_of (columns d) k) else map_of (columns d) k)"
  by (simp add: loc_set_def map_of_map_entry)

lemma index_loc_set: "index (loc_set l n v d) = index d"
  by (simp add: loc_set_def)

lemma keys_loc_set: "map fst (columns (loc_set l n v d)) = map fst (columns d)"
  by (simp add: loc_set_def comp_def case_prod_beta)

lemma length_loc_write: "length (loc_write idx l v xs) = min (length idx) (length xs)"
  by (simp add: loc_write_def)

lemma loc_write_distinct:
  assumes "distinct idx" "i < length idx" "length xs = length idx"
  shows "loc_write idx (idx ! i) v xs = xs[i := Some v]"
proof (rule nth_equalityI)
  show "length (loc_write idx (idx ! i) v xs) = length (xs[i := Some v])"
    using assms by (simp add: length_loc_write)
next
  fix j assume "j < length (loc_write idx (idx ! i) v xs)"
  then have j: "j < length idx" "j < length xs" by (simp_all add: length_loc_write)
  then show "loc_write idx (idx ! i) v xs ! j = xs[i := Some v] ! j"
    using assms by (auto simp: loc_write_def nth_eq_iff_index_eq nth_list_update)
qed

text \<open>One pass, written with the crossing of the four values it reads.\<close>

lemma signal_step_eq:
  "signal_step i (d, slf) =
     (let c = crossing (iloc d ''MACD'' (i - 1)) (iloc d ''MACD_Signal'' (i - 1)) (iloc d ''MACD'' i) (iloc d ''MACD_Signal'' i);
          p = (if c \<noteq> 0 then c else position slf)
      in if isna (iloc d ''MACD'' i) \<or> isna (iloc d ''MACD_Signal'' i) \<or> isna (iloc d ''MACD'' (i - 1)) \<or> isna (iloc d ''MACD_Signal'' (i - 1))
         then (d, slf)
         else (loc_set (index d ! i) ''Position'' (of_int p)
                 (if c \<noteq> 0 then loc_set (index d ! i) ''Signal'' (of_int c) d else d),
               slf\<lparr>position := p\<rparr>))"
  by (auto simp add: signal_step_def crossing_def Let_def index_loc_set)

lemma iloc_col: "map_of (columns d) name = Some xs \<Longrightarrow> iloc d name i = xs ! i"
  by (simp add: iloc_def)

lemma crossing_cases: "crossing a b c d = 0 \<or> crossing a b c d = 1 \<or> crossing a b c d = - 1"
  by (simp add: crossing_def)

lemma crossing_defined: "crossing a b c d \<noteq> 0 \<Longrightarrow> \<not> (isna c \<or> isna d \<or> isna a \<or> isna b)"
  by (auto simp: crossing_def split: if_splits)

lemma loop_inv_step:
  assumes dist: "distinct idx" and k: "1 \<le> k" "k < length idx"
    and inv: "loop_inv idx m s slf0 k (d, slf)"
  shows "loop_inv idx m s slf0 (Suc k) (signal_step k (d, slf))"
proof -
  from inv obtain sg ps where
    idx: "index d = idx" and m: "map_of (columns d) ''MACD'' = Some m"
    and s: "map_of (columns d) ''MACD_Signal'' = Some s"
    and sg: "map_of (columns d) ''Signal'' = Some sg" "length sg = length idx"
      "\<forall>j < length idx. sg ! j = Some (if 1 \<le> j \<and> j < k then of_int (cross_at m s j) else 0)"
    and ps: "map_of (columns d) ''Position'' = Some ps" "length ps = length idx"
      "\<forall>j < length idx. ps ! j =
           Some (if 1 \<le> j \<and> j < k \<and> defined_at m s j then of_int (run_position (position slf0) m s j) else 0)"
    and slf: "slf = slf0\<lparr>position := run_position (position slf0) m s (k - 1)\<rparr>"
    by (auto simp: loop_inv_def)
  let ?c = "cross_at m s k"
  have il: "iloc d ''MACD'' k = m ! k" "iloc d ''MACD_Signal'' k = s ! k"
    "iloc d ''MACD'' (k - Suc 0) = m ! (k - Suc 0)" "iloc d ''MACD_Signal'' (k - Suc 0) = s ! (k - Suc 0)"
    using m s by (simp_all add: iloc_col)
  have rp: "run_position (position slf0) m s k =
      (if ?c \<noteq> 0 then ?c else run_position (position slf0) m s (k - 1))"
    using k by (cases k) simp_all
  show ?thesis
  proof (cases "defined_at m s k")
    case False
    then have c0: "?c = 0"
      using crossing_defined[of "m ! (k - 1)" "s ! (k - 1)" "m ! k" "s ! k"]
      by (auto simp: cross_at_def defined_at_def)
    have st: "signal_step k (d, slf) = (d, slf)"
      using False by (simp add: signal_step_eq il defined_at_def Let_def)
    have "\<forall>j < length idx. sg ! j = Some (if 1 \<le> j \<and> j < Suc k then of_int (cross_at m s j) else 0)"
      using sg(3) c0 by (auto simp: less_Suc_eq)
    moreover have "\<forall>j < length idx. ps ! j =
           Some (if 1 \<le> j \<and> j < Suc k \<and> defined_at m s j then of_int (run_position (position slf0) m s j) else 0)"
      using ps(3) False by (auto simp: less_Suc_eq)
    moreover have "slf = slf0\<lparr>position := run_position (position slf0) m s (Suc k - 1)\<rparr>"
      using slf rp c0 by simp
    ultimately show ?thesis
      unfolding st loop_inv_def using idx m s sg(1,2) ps(1,2) by simp
  next
    case True
    let ?p = "run_position (position slf0) m s k"
    let ?d1 = "if ?c \<noteq> 0 then loc_set (idx ! k) ''Signal'' (of_int ?c) d else d"
    let ?d2 = "loc_set (idx ! k) ''Position'' (of_int ?p) ?d1"
    have pp: "(if ?c \<noteq> 0 then ?c else position slf) = ?p"
      using rp slf by simp
    have st: "signal_step k (d, slf) = (?d2, slf\<lparr>position := ?p\<rparr>)"
      using True pp unfolding cross_at_def
      by (cases "crossing (m ! (k - 1)) (s ! (k - 1)) (m ! k) (s ! k) = 0")
         (simp_all add: signal_step_eq il defined_at_def Let_def idx)
    have i1: "index ?d1 = idx" using idx by (simp add: index_loc_set)
    have i2: "index ?d2 = idx" using i1 by (simp add: index_loc_set)
    have m2: "map_of (columns ?d2) ''MACD'' = Some m" "map_of (columns ?d2) ''MACD_Signal'' = Some s"
      using m s by (simp_all add: map_of_loc_set)
    let ?sg = "if ?c \<noteq> 0 then sg[k := Some (of_int ?c)] else sg"
    have sg2: "map_of (columns ?d2) ''Signal'' = Some ?sg"
      using sg(1,2) idx dist k by (simp add: map_of_loc_set loc_write_distinct)
    have sg3: "\<forall>j < length idx. ?sg ! j = Some (if 1 \<le> j \<and> j < Suc k then of_int (cross_at m s j) else 0)"
      using sg(2,3) k by (auto simp: less_Suc_eq nth_list_update)
    have ps2: "map_of (columns ?d2) ''Position'' = Some (ps[k := Some (of_int ?p)])"
      using ps(1,2) i1 dist k by (simp add: map_of_loc_set loc_write_distinct)
    have ps3: "\<forall>j < length idx. ps[k := Some (of_int ?p)] ! j =
           Some (if 1 \<le> j \<and> j < Suc k \<and> defined_at m s j then of_int (run_position (position slf0) m s j) else 0)"
      using ps(2,3) k True by (auto simp: less_Suc_eq nth_list_update)
    have sl: "slf\<lparr>position := ?p\<rparr> = slf0\<lparr>position := run_position (position slf0) m s (Suc k - 1)\<rparr>"
      using slf by simp
    show ?thesis
      unfolding st loop_inv_def using i2 m2 sg2 sg3 ps2 ps3 sl sg(2) ps(2)
      by (simp del: One_nat_def)
  qed
qed

lemma loop_inv_fold:
  assumes dist: "distinct idx" and k: "1 \<le> k" "k \<le> max 1 (length idx)"
    and inv: "loop_inv idx m s slf0 1 (d0, slf0')"
  shows "loop_inv idx m s slf0 k (fold signal_step [1 ..< k] (d0, slf0'))"
  using k
proof (induction k)
  case 0
  then show ?case by simp
next
  case (Suc k)
  show ?case
  proof (cases "k = 0")
    case True
    then show ?thesis using inv by simp
  next
    case False
    then have k1: "1 \<le> k" "k < length idx" "k \<le> max 1 (length idx)" using Suc.prems by simp_all
    have "fold signal_step [1 ..< Suc k] (d0, slf0') = signal_step k (fold signal_step [1 ..< k] (d0, slf0'))"
      using k1 by simp
    moreover obtain d slf where f: "fold signal_step [1 ..< k] (d0, slf0') = (d, slf)"
      by (cases "fold signal_step [1 ..< k] (d0, slf0')")
    ultimately show ?thesis
      using loop_inv_step[OF dist k1(1,2), of m s slf0 d slf] Suc.IH[OF k1(1) k1(3)] by simp
  qed
qed

lemma fold_store:
  "fold (signal_pass r) ks (st, slf) =
     (if ks = [] then (st, slf)
      else (upd r (\<lambda>_. fst (fold signal_step ks (frames st r, slf))) st,
            snd (fold signal_step ks (frames st r, slf))))"
proof (induction ks arbitrary: st slf)
  case Nil
  then show ?case by simp
next
  case (Cons k ks)
  obtain d slf' where st: "signal_step k (frames st r, slf) = (d, slf')"
    by (cases "signal_step k (frames st r, slf)")
  have p: "signal_pass r k (st, slf) = (upd r (\<lambda>_. d) st, slf')"
    by (simp add: signal_pass_def st)
  have u: "frames (upd r (\<lambda>_. d) st) r = d" by (simp add: upd_def)
  have uu: "\<And>e. upd r (\<lambda>_. e) (upd r (\<lambda>_. d) st) = upd r (\<lambda>_. e) st" by (simp add: upd_def)
  show ?case
    by (cases "ks = []") (simp_all add: st p Cons.IH u uu)
qed

lemma generate_signals_eq:
  "generate_signals talib self st a =
     (case get_column (frames st a) ''Close'' of
        Inl e \<Rightarrow> Inl e
      | Inr close \<Rightarrow>
        (case calculate_macd talib self (index (frames st a)) close of
           Inl e \<Rightarrow> Inl e
         | Inr (m, s, h) \<Rightarrow>
             let res = fold signal_step [1 ..< length (index (frames st a))]
                         (init_frame (frames st a) m s h, self)
             in Inr (snd res,
                     st\<lparr>frames := (frames st)(next_free st := fst res), next_free := Suc (next_free st)\<rparr>,
                     next_free st)))"
proof -
  have a: "((frames st)(next_free st := frames st a)) a = frames st a" by simp
  show ?thesis
    unfolding generate_signals_def copy_frame_def
    by (auto simp: a Let_def fold_store upd_def init_frame_def index_set_column split: sum.splits prod.splits)
qed

lemma loop_inv_init:
  assumes "length m = length (index df)" "length s = length (index df)"
  shows "loop_inv (index df) m s self 1 (init_frame df m s h, self)"
  using assms
  by (simp add: loop_inv_def init_frame_def map_of_set_column index_set_column)

lemma calculate_macd_Inr:
  assumes "calculate_macd talib self idx close = Inr (m, s, h)"
  shows "talib close (fast_period self) (slow_period self) (signal_period self) = Inr (m, s, h) \<and>
         length m = length idx \<and> length s = length idx \<and> length h = length idx"
  using assms
  by (auto simp: calculate_macd_def series_def split: sum.splits prod.splits if_splits)

lemma generate_signals_run:
  assumes run: "generate_signals talib self st a = Inr (self', st', r)"
    and dist: "distinct (index (frames st a))"
  shows "\<exists>close m s h.
           get_column (frames st a) ''Close'' = Inr close \<and>
           talib close (fast_period self) (slow_period self) (signal_period self) = Inr (m, s, h) \<and>
           length m = length (index (frames st a)) \<and> length s = length (index (frames st a)) \<and>
           r = next_free st \<and>
           loop_inv (index (frames st a)) m s self (max 1 (length (index (frames st a)))) (frames st' r, self')"
proof -
  let ?df = "frames st a"
  let ?n = "length (index ?df)"
  from run obtain close where c: "get_column ?df ''Close'' = Inr close"
    by (auto simp: generate_signals_eq split: sum.splits)
  from run c obtain m s h where cm: "calculate_macd talib self (index ?df) close = Inr (m, s, h)"
    by (auto simp: generate_signals_eq split: sum.splits)
  note cmf = calculate_macd_Inr[OF cm]
  let ?res = "fold signal_step [1 ..< ?n] (init_frame ?df m s h, self)"
  from run c cm have r: "r = next_free st" and st': "frames st' r = fst ?res" and self': "self' = snd ?res"
    by (auto simp: generate_signals_eq Let_def)
  have "loop_inv (index ?df) m s self (max 1 ?n) (fold signal_step [1 ..< max 1 ?n] (init_frame ?df m s h, self))"
    by (rule loop_inv_fold[OF dist _ _ loop_inv_init]) (use cmf in simp_all)
  moreover have "[1 ..< max 1 ?n] = [1 ..< ?n]" by (cases "?n") simp_all
  ultimately have "loop_inv (index ?df) m s self (max 1 ?n) (frames st' r, self')"
    by (simp add: st' self')
  with c cmf r show ?thesis by blast
qed

lemma cross_at_defined:
  assumes "m ! (i - 1) = Some pm" "s ! (i - 1) = Some ps" "m ! i = Some cm" "s ! i = Some cs"
  shows "cross_at m s i = (if pm \<le> ps \<and> cs < cm then 1 else if ps \<le> pm \<and> cm < cs then - 1 else 0)"
  using assms by (simp add: cross_at_def crossing_def isna_def fge_def fgt_def)

lemma crossing_Some:
  "crossing (Some pm) (Some ps) (Some cm) (Some cs) =
     (if pm \<le> ps \<and> cs < cm then 1 else if ps \<le> pm \<and> cm < cs then - 1 else 0)"
  by (simp add: crossing_def isna_def fge_def fgt_def)

lemma crossing_None:
  "crossing None b c d = 0" "crossing a None c d = 0" "crossing a b None d = 0" "crossing a b c None = 0"
  by (simp_all add: crossing_def isna_def)

lemma crossing_swap: "crossing b a d c = - crossing a b c d"
proof (cases a)
  case None then show ?thesis by (simp add: crossing_None)
next
  case a: (Some pm)
  show ?thesis
  proof (cases b)
    case None then show ?thesis by (simp add: crossing_None)
  next
    case b: (Some ps)
    show ?thesis
    proof (cases c)
      case None then show ?thesis by (simp add: crossing_None)
    next
      case c: (Some cm)
      show ?thesis
      proof (cases d)
        case None then show ?thesis by (simp add: crossing_None)
      next
        case d: (Some cs)
        show ?thesis unfolding a b c d crossing_Some by auto
      qed
    qed
  qed
qed

lemma cross_at_swap: "cross_at s m i = - cross_at m s i"
  unfolding cross_at_def by (rule crossing_swap)

lemma cross_at_values: "cross_at m s i = 0 \<or> cross_at m s i = 1 \<or> cross_at m s i = - 1"
  by (simp add: cross_at_def crossing_cases)

text \<open>Between two upward crossings without a tie there is a downward one.\<close>

lemma up_then_down:
  assumes ij: "i < j" and ci: "cross_at m s i = 1" and cj: "cross_at m s j = 1"
    and nt: "\<forall>k. i \<le> k \<and> k < j \<longrightarrow> m ! k \<noteq> None \<and> s ! k \<noteq> None \<and> m ! k \<noteq> s ! k"
  shows "\<exists>k. i < k \<and> k < j \<and> cross_at m s k = - 1"
proof -
  have gi: "flt (s ! i) (m ! i)"
    using ci by (auto simp: cross_at_def crossing_def fgt_def split: if_splits)
  have lj: "fle (m ! (j - 1)) (s ! (j - 1))"
    using cj by (auto simp: cross_at_def crossing_def split: if_splits)
  have ne: "j - 1 \<noteq> i"
  proof
    assume "j - 1 = i"
    with gi lj show False by (cases "m ! i"; cases "s ! i") auto
  qed
  with ij have ij1: "i < j - 1" by simp
  have "m ! (j - 1) \<noteq> s ! (j - 1)" "m ! (j - 1) \<noteq> None" "s ! (j - 1) \<noteq> None"
    using nt ij by simp_all
  with lj have lt: "flt (m ! (j - 1)) (s ! (j - 1))"
    by (cases "m ! (j - 1)"; cases "s ! (j - 1)") auto
  define P where "P k \<longleftrightarrow> i < k \<and> flt (m ! k) (s ! k)" for k
  have Pj: "P (j - 1)" using ij1 lt by (simp add: P_def)
  define k where "k = (LEAST k. P k)"
  have Pk: "P k" unfolding k_def using Pj by (rule LeastI)
  have kle: "k \<le> j - 1" unfolding k_def using Pj by (rule Least_le)
  have ik: "i < k" and fk: "flt (m ! k) (s ! k)" using Pk by (simp_all add: P_def)
  have kj: "k < j" using kle ij by simp
  have nP: "\<not> P (k - 1)"
    using not_less_Least[of "k - 1" P] ik unfolding k_def by simp
  have prev: "\<not> flt (m ! (k - 1)) (s ! (k - 1))"
  proof (cases "k - 1 = i")
    case True
    with gi show ?thesis by (cases "m ! i"; cases "s ! i") auto
  next
    case False
    with ik have "i < k - 1" by simp
    with nP show ?thesis by (simp add: P_def)
  qed
  have rng: "i \<le> k - 1 \<and> k - 1 < j" "i \<le> k \<and> k < j" using ik kj by arith+
  have dk1: "m ! (k - 1) \<noteq> None" "s ! (k - 1) \<noteq> None" and dk: "m ! k \<noteq> None" "s ! k \<noteq> None"
    using nt[rule_format, OF rng(1)] nt[rule_format, OF rng(2)] by blast+
  from dk1 dk obtain pm ps cm cs where
    v: "m ! (k - 1) = Some pm" "s ! (k - 1) = Some ps" "m ! k = Some cm" "s ! k = Some cs"
    by auto
  have "ps \<le> pm" "cm < cs" using prev fk v by auto
  then have "cross_at m s k = - 1"
    unfolding cross_at_def v crossing_Some by auto
  with ik kj show ?thesis by blast
qed

lemma down_then_up:
  assumes ij: "i < j" and ci: "cross_at m s i = - 1" and cj: "cross_at m s j = - 1"
    and nt: "\<forall>k. i \<le> k \<and> k < j \<longrightarrow> m ! k \<noteq> None \<and> s ! k \<noteq> None \<and> m ! k \<noteq> s ! k"
  shows "\<exists>k. i < k \<and> k < j \<and> cross_at m s k = 1"
proof -
  have "\<exists>k. i < k \<and> k < j \<and> cross_at s m k = - 1"
  proof (rule up_then_down[OF ij])
    show "cross_at s m i = 1" using ci by (simp add: cross_at_swap[of s m])
    show "cross_at s m j = 1" using cj by (simp add: cross_at_swap[of s m])
    show "\<forall>k. i \<le> k \<and> k < j \<longrightarrow> s ! k \<noteq> None \<and> m ! k \<noteq> None \<and> s ! k \<noteq> m ! k"
      using nt by auto
  qed
  then show ?thesis by (simp add: cross_at_swap[of s m])
qed

lemma result_column_run:
  assumes "result_column talib self st a name = Inr xs"
  shows "\<exists>self' st' r. generate_signals talib self st a = Inr (self', st', r) \<and>
           get_column (frames st' r) name = Inr xs"
  using assms by (auto simp: result_column_def split: sum.splits)

lemma get_column_Inr: "get_column d name = Inr xs \<longleftrightarrow> map_of (columns d) name = Some xs"
  by (simp add: get_column_def split: option.splits)

text \<open>What one pass, and the whole loop, leave unchanged.\<close>

lemma signal_step_frame:
  assumes "signal_step i (d, slf) = (d', slf')"
  shows "index d' = index d \<and> map fst (columns d') = map fst (columns d) \<and>
         (\<forall>name. name \<noteq> ''Signal'' \<longrightarrow> name \<noteq> ''Position'' \<longrightarrow>
                 map_of (columns d') name = map_of (columns d) name) \<and>
         slf'\<lparr>position := p\<rparr> = slf\<lparr>position := p\<rparr>"
  using assms
  by (auto simp: signal_step_eq Let_def index_loc_set keys_loc_set map_of_loc_set split: if_splits)

lemma fold_signal_step_frame:
  assumes "fold signal_step ks (d, slf) = (d', slf')"
  shows "index d' = index d \<and> map fst (columns d') = map fst (columns d) \<and>
         (\<forall>name. name \<noteq> ''Signal'' \<longrightarrow> name \<noteq> ''Position'' \<longrightarrow>
                 map_of (columns d') name = map_of (columns d) name) \<and>
         slf'\<lparr>position := p\<rparr> = slf\<lparr>position := p\<rparr>"
  using assms
proof (induction ks arbitrary: d slf)
  case Nil
  then show ?case by simp
next
  case (Cons k ks)
  obtain d1 slf1 where st: "signal_step k (d, slf) = (d1, slf1)"
    by (cases "signal_step k (d, slf)")
  from Cons.prems st have "fold signal_step ks (d1, slf1) = (d', slf')" by simp
  from Cons.IH[OF this] signal_step_frame[OF st, of p] show ?case by simp
qed


lemma keys_set_column: "fst ` set (columns (set_column n v d)) = insert n (fst ` set (columns d))"
  by (simp add: set_column_def dom_update)

lemma generate_signals_frame:
  assumes run: "generate_signals talib self st a = Inr (self', st', r)"
  shows "r = next_free st \<and> next_free st' = Suc r \<and>
         (\<forall>b. b \<noteq> r \<longrightarrow> frames st' b = frames st b) \<and>
         index (frames st' r) = index (frames st a) \<and>
         (\<forall>name. name \<notin> set computed_columns \<longrightarrow>
                 map_of (columns (frames st' r)) name = map_of (columns (frames st a)) name) \<and>
         set computed_columns \<subseteq> fst ` set (columns (frames st' r)) \<and>
         self'\<lparr>position := p\<rparr> = self\<lparr>position := p\<rparr>"
proof -
  let ?df = "frames st a"
  from run obtain close where c: "get_column ?df ''Close'' = Inr close"
    by (auto simp: generate_signals_eq split: sum.splits)
  from run c obtain m s h where cm: "calculate_macd talib self (index ?df) close = Inr (m, s, h)"
    by (auto simp: generate_signals_eq split: sum.splits)
  let ?d0 = "init_frame ?df m s h"
  obtain d slf where f: "fold signal_step [1 ..< length (index ?df)] (?d0, self) = (d, slf)"
    by (cases "fold signal_step [1 ..< length (index ?df)] (?d0, self)")
  from run c cm f have r: "r = next_free st" and nf: "next_free st' = Suc r"
    and fr: "frames st' = (frames st)(r := d)" and sl: "self' = slf"
    by (auto simp: generate_signals_eq Let_def)
  note g = fold_signal_step_frame[OF f, of p]
  have i0: "index ?d0 = index ?df"
    by (simp add: init_frame_def index_set_column)
  have k0: "fst ` set (columns ?d0) = set computed_columns \<union> fst ` set (columns ?df)"
    by (auto simp: init_frame_def keys_set_column computed_columns_def)
  have m0: "map_of (columns ?d0) name = map_of (columns ?df) name" if "name \<notin> set computed_columns" for name
    using that by (simp add: init_frame_def map_of_set_column computed_columns_def)
  have keys: "fst ` set (columns d) = fst ` set (columns ?d0)"
    using g by (metis set_map)
  have other: "map_of (columns d) name = map_of (columns ?df) name" if "name \<notin> set computed_columns" for name
  proof -
    from that have "name \<noteq> ''Signal''" "name \<noteq> ''Position''" by (auto simp: computed_columns_def)
    with g have "map_of (columns d) name = map_of (columns ?d0) name" by blast
    with m0[OF that] show ?thesis by simp
  qed
  show ?thesis
    using r nf fr sl g i0 k0 keys other by auto
qed








text \<open>The values of the position.\<close>

lemma set_loc_write: "set (loc_write idx l v xs) \<subseteq> insert (Some v) (set xs)"
proof
  fix y assume "y \<in> set (loc_write idx l v xs)"
  then obtain k x where kx: "(k, x) \<in> set (zip idx xs)" and y: "y = (if k = l then Some v else x)"
    by (auto simp: loc_write_def)
  from kx have "x \<in> set xs" by (rule set_zip_rightD)
  with y show "y \<in> insert (Some v) (set xs)" by simp
qed

lemma signal_step_positions:
  fixes d :: "('k, 'v::linordered_idom) dataframe"
  assumes p: "position slf \<in> {- 1, 0, 1}"
    and c: "\<exists>ps. map_of (columns d) ''Position'' = Some ps \<and> set ps \<subseteq> {Some (- 1), Some 0, Some 1}"
    and st: "signal_step i (d, slf) = (d', slf')"
  shows "position slf' \<in> {- 1, 0, 1} \<and>
         (\<exists>ps. map_of (columns d') ''Position'' = Some ps \<and> set ps \<subseteq> {Some (- 1), Some 0, Some 1})"
proof -
  from c obtain ps where ps: "map_of (columns d) ''Position'' = Some ps"
    "set ps \<subseteq> {Some (- 1), Some 0, Some 1}" by blast
  define cr where "cr = crossing (iloc d ''MACD'' (i - 1)) (iloc d ''MACD_Signal'' (i - 1)) (iloc d ''MACD'' i) (iloc d ''MACD_Signal'' i)"
  define q where "q = (if cr \<noteq> 0 then cr else position slf)"
  have q: "q \<in> {- 1, 0, 1}"
    using p crossing_cases[of "iloc d ''MACD'' (i - 1)" "iloc d ''MACD_Signal'' (i - 1)" "iloc d ''MACD'' i" "iloc d ''MACD_Signal'' i"]
    by (auto simp: q_def cr_def)
  then have oq: "Some (of_int q :: 'v) \<in> {Some (- 1), Some 0, Some 1}" by auto
  have w: "set (loc_write idx l (of_int q :: 'v) ps) \<subseteq> {Some (- 1), Some 0, Some 1}" for idx :: "'k list" and l
    using set_loc_write[of idx l "of_int q" ps] ps(2) oq by blast
  show ?thesis
  proof (cases "isna (iloc d ''MACD'' i) \<or> isna (iloc d ''MACD_Signal'' i) \<or> isna (iloc d ''MACD'' (i - 1)) \<or> isna (iloc d ''MACD_Signal'' (i - 1))")
    case True
    then have "signal_step i (d, slf) = (d, slf)" by (simp add: signal_step_eq Let_def)
    with st p ps show ?thesis by auto
  next
    case False
    then have "signal_step i (d, slf) =
        (loc_set (index d ! i) ''Position'' (of_int q)
           (if cr \<noteq> 0 then loc_set (index d ! i) ''Signal'' (of_int cr) d else d),
         slf\<lparr>position := q\<rparr>)"
      by (simp add: signal_step_eq Let_def q_def cr_def)
    with st have d': "d' = loc_set (index d ! i) ''Position'' (of_int q)
           (if cr \<noteq> 0 then loc_set (index d ! i) ''Signal'' (of_int cr) d else d)"
      and s': "slf' = slf\<lparr>position := q\<rparr>" by simp_all
    have "map_of (columns d') ''Position'' = Some (loc_write (index d) (index d ! i) (of_int q) ps)"
      unfolding d' using ps(1) by (simp add: map_of_loc_set index_loc_set)
    with w q s' show ?thesis by simp
  qed
qed

lemma fold_signal_step_positions:
  fixes d :: "('k, 'v::linordered_idom) dataframe"
  assumes "position slf \<in> {- 1, 0, 1}"
    and "\<exists>ps. map_of (columns d) ''Position'' = Some ps \<and> set ps \<subseteq> {Some (- 1), Some 0, Some 1}"
    and "fold signal_step ks (d, slf) = (d', slf')"
  shows "position slf' \<in> {- 1, 0, 1} \<and>
         (\<exists>ps. map_of (columns d') ''Position'' = Some ps \<and> set ps \<subseteq> {Some (- 1), Some 0, Some 1})"
  using assms
proof (induction ks arbitrary: d slf)
  case Nil
  then show ?case by simp
next
  case (Cons k ks)
  obtain d1 slf1 where st: "signal_step k (d, slf) = (d1, slf1)"
    by (cases "signal_step k (d, slf)")
  from Cons.prems(3) st have f: "fold signal_step ks (d1, slf1) = (d', slf')" by simp
  from signal_step_positions[OF Cons.prems(1,2) st]
  show ?case using Cons.IH[OF _ _ f] by blast
qed

lemma run_position_cross:
  assumes "1 \<le> j" "cross_at m s j \<noteq> 0"
  shows "run_position p m s j = cross_at m s j"
  using assms by (cases j) simp_all

lemma cross_at_defined_at: "cross_at m s j \<noteq> 0 \<Longrightarrow> defined_at m s j"
  using crossing_defined[of "m ! (j - 1)" "s ! (j - 1)" "m ! j" "s ! j"]
  by (simp add: cross_at_def defined_at_def)

text \<open>The Signal column of a run, from the two lines the library returned.\<close>

lemma result_signal_char:
  assumes sg: "result_column talib self st a ''Signal'' = Inr sg"
    and dist: "distinct (index (frames st a))"
    and close: "get_column (frames st a) ''Close'' = Inr P"
    and lib: "talib P (fast_period self) (slow_period self) (signal_period self) = Inr (m, s, h)"
  shows "length sg = length m \<and> length s = length m \<and>
         (\<forall>j < length sg. sg ! j = Some (if 1 \<le> j then of_int (cross_at m s j) else 0))"
proof -
  let ?n = "length (index (frames st a))"
  from result_column_run[OF sg] obtain self' st' r where
    run: "generate_signals talib self st a = Inr (self', st', r)"
    and g: "get_column (frames st' r) ''Signal'' = Inr sg" by blast
  from generate_signals_run[OF run dist] close lib obtain
    len: "length m = ?n" "length s = ?n"
    and inv: "loop_inv (index (frames st a)) m s self (max 1 ?n) (frames st' r, self')"
    by auto
  from inv g have "length sg = ?n"
    and "\<forall>j < ?n. sg ! j = Some (if 1 \<le> j then of_int (cross_at m s j) else 0)"
    by (auto simp: loop_inv_def get_column_Inr)
  with len show ?thesis by simp
qed

lemma final_strategy_periods:
  assumes "final_strategy talib self st a = Inr self1"
  shows "fast_period self1 = fast_period self \<and> slow_period self1 = slow_period self \<and>
         signal_period self1 = signal_period self"
proof -
  from assms obtain st' r where run: "generate_signals talib self st a = Inr (self1, st', r)"
    by (auto simp: final_strategy_def split: sum.splits)
  from generate_signals_frame[OF run, of 0] have e: "self1\<lparr>position := 0\<rparr> = self\<lparr>position := 0\<rparr>"
    by blast
  have "fast_period (self1\<lparr>position := 0\<rparr>) = fast_period (self\<lparr>position := 0\<rparr>)"
       "slow_period (self1\<lparr>position := 0\<rparr>) = slow_period (self\<lparr>position := 0\<rparr>)"
       "signal_period (self1\<lparr>position := 0\<rparr>) = signal_period (self\<lparr>position := 0\<rparr>)"
    by (simp_all only: e)
  then show ?thesis by simp
qed

section \<open>Lemmas on the backtest\<close>

text \<open>The orders \<open>next\<close> places, and the number of open trades.\<close>

lemma strategy_next_long_buy:
  fixes signals :: "'a::linordered_idom option list"
  assumes "signals \<noteq> []" "last signals = Some 1"
  shows "strategy_next fast slow sig psize signals True = Inr None"
proof -
  from assms(1) obtain c earlier where r: "rev signals = c # earlier"
    by (cases "rev signals") auto
  then have "signals = rev earlier @ [c]" by (metis rev_rev_ident rev.simps(2))
  with assms(2) have c: "c = Some 1" by simp
  show ?thesis
    by (simp add: strategy_next_def r c isna_def Let_def)
qed

lemma strategy_next_flat_sell:
  fixes signals :: "'a::linordered_idom option list"
  assumes "signals \<noteq> []" "last signals = Some (- 1)"
  shows "strategy_next fast slow sig psize signals False = Inr None"
proof -
  from assms(1) obtain c earlier where r: "rev signals = c # earlier"
    by (cases "rev signals") auto
  then have "signals = rev earlier @ [c]" by (metis rev_rev_ident rev.simps(2))
  with assms(2) have c: "c = Some (- 1)" by simp
  show ?thesis
    by (simp add: strategy_next_def r c isna_def Let_def)
qed

lemma strategy_next_orders:
  fixes signals :: "'a::linordered_idom option list"
  assumes "strategy_next fast slow sig psize signals pos = Inr (Some ord)"
  shows "(ord = Buy psize \<and> \<not> pos \<and> last signals = Some 1) \<or>
         (ord = ClosePosition \<and> pos \<and> last signals = Some (- 1))"
proof -
  from assms obtain c earlier where r: "rev signals = c # earlier"
    by (cases "rev signals") (auto simp: strategy_next_def split: if_splits)
  then have "signals = rev earlier @ [c]" by (metis rev_rev_ident rev.simps(2))
  then have l: "last signals = c" by simp
  from assms show ?thesis
    unfolding l by (auto simp: strategy_next_def r Let_def split: if_splits)
qed

lemma sim_step_trades:
  fixes signals :: "'a::linordered_idom option list"
  assumes "sim_step fast slow sig psize fill_buy fill_close signals acct = Inr acct'"
    and "open_trades acct \<le> 1"
  shows "open_trades acct' \<le> 1"
proof (cases "strategy_next fast slow sig psize signals (0 < open_trades acct)")
  case (Inl e)
  with assms show ?thesis by (simp add: sim_step_def)
next
  case (Inr o')
  show ?thesis
  proof (cases o')
    case None
    with Inr assms show ?thesis by (simp add: sim_step_def)
  next
    case (Some ord)
    from strategy_next_orders[OF Inr[unfolded Some]] show ?thesis
    proof
      assume b: "ord = Buy psize \<and> \<not> 0 < open_trades acct \<and> last signals = Some 1"
      with Inr Some assms show ?thesis
        by (auto simp: sim_step_def split: option.splits)
    next
      assume "ord = ClosePosition \<and> 0 < open_trades acct \<and> last signals = Some (- 1)"
      with Inr Some assms show ?thesis
        by (auto simp: sim_step_def)
    qed
  qed
qed

lemma sim_run_trades:
  fixes signals :: "'a::linordered_idom option list"
  assumes "sim_run fast slow sig psize fill_buy fill_close signals ks acct = Inr acct'"
    and "open_trades acct \<le> 1"
  shows "open_trades acct' \<le> 1"
  using assms
proof (induction ks arbitrary: acct)
  case Nil
  then show ?case by simp
next
  case (Cons k ks)
  from Cons.prems(1) obtain a1 where
    s: "sim_step fast slow sig psize fill_buy fill_close (take k signals) acct = Inr a1"
    and r: "sim_run fast slow sig psize fill_buy fill_close signals ks a1 = Inr acct'"
    by (auto split: sum.splits)
  from Cons.IH[OF r sim_step_trades[OF s Cons.prems(2)]] show ?case .
qed


















section \<open>The constructor checks nothing\<close>



section \<open>The signal generator\<close>

text \<open>
  Claim C1, as the code has it. For a frame with distinct row labels, let \<open>m\<close> and \<open>s\<close>
  be the MACD and MACD_Signal columns of the frame that \<open>generate_signals\<close> returns.
  Then the Signal column has one entry per bar, and at every bar from the second on
  whose current and previous values of both lines are numbers it holds Buy exactly
  when \<open>macd[i-1] \<le> signal[i-1]\<close> and \<open>macd[i] > signal[i]\<close>, Sell exactly when
  \<open>macd[i-1] \<ge> signal[i-1]\<close> and \<open>macd[i] < signal[i]\<close>, and Hold otherwise; what was
  emitted before plays no part. Two equal non-hold signals have a different non-hold
  signal between them whenever, from the first to the bar before the second, both
  lines are numbers and differ.
\<close>

theorem generate_signals_crossover:
  assumes dist: "distinct (index (frames st a))"
    and m: "result_column talib self st a ''MACD'' = Inr m"
    and s: "result_column talib self st a ''MACD_Signal'' = Inr s"
  shows "\<exists>sg. result_column talib self st a ''Signal'' = Inr sg \<and>
              length sg = length (index (frames st a)) \<and>
              crossover_rule m s sg \<and> alternation_rule m s sg"
proof -
  let ?n = "length (index (frames st a))"
  from result_column_run[OF m] obtain self' st' r where
    run: "generate_signals talib self st a = Inr (self', st', r)"
    and gm: "get_column (frames st' r) ''MACD'' = Inr m" by blast
  from s run have gs: "get_column (frames st' r) ''MACD_Signal'' = Inr s"
    by (simp add: result_column_def)
  from generate_signals_run[OF run dist] obtain m' s' where
    inv: "loop_inv (index (frames st a)) m' s' self (max 1 ?n) (frames st' r, self')" by blast
  from inv gm gs have "m' = m" "s' = s" by (simp_all add: loop_inv_def get_column_Inr)
  with inv obtain sg where sg: "map_of (columns (frames st' r)) ''Signal'' = Some sg" "length sg = ?n"
    and sgv: "\<forall>j < ?n. sg ! j = Some (if 1 \<le> j then of_int (cross_at m s j) else 0)"
    by (auto simp: loop_inv_def)
  have val: "sg ! j = Some (of_int (cross_at m s j))" if "1 \<le> j" "j < ?n" for j
    using sgv that by simp
  have one: "(sg ! j = Some 1) = (cross_at m s j = 1)"
    and mone: "(sg ! j = Some (- 1)) = (cross_at m s j = - 1)"
    and zero: "(sg ! j = Some 0) = (cross_at m s j = 0)" if "1 \<le> j" "j < ?n" for j
    using val[OF that] cross_at_values[of m s j] by auto
  have rc: "result_column talib self st a ''Signal'' = Inr sg"
    using run sg by (simp add: result_column_def get_column_Inr)
  have cr: "crossover_rule m s sg"
    unfolding crossover_rule_def
  proof (intro allI impI)
    fix i pm ps cm cs
    assume h: "1 \<le> i \<and> i < length sg \<and> m ! (i - 1) = Some pm \<and> s ! (i - 1) = Some ps \<and>
               m ! i = Some cm \<and> s ! i = Some cs"
    then have i: "1 \<le> i" "i < ?n" using sg(2) by simp_all
    have c: "cross_at m s i = (if pm \<le> ps \<and> cs < cm then 1 else if ps \<le> pm \<and> cm < cs then - 1 else 0)"
      using h by (intro cross_at_defined) simp_all
    show "(sg ! i = Some 1 \<longleftrightarrow> pm \<le> ps \<and> cm > cs) \<and>
          (sg ! i = Some (- 1) \<longleftrightarrow> pm \<ge> ps \<and> cm < cs) \<and>
          (sg ! i = Some 0 \<longleftrightarrow> \<not> (pm \<le> ps \<and> cm > cs) \<and> \<not> (pm \<ge> ps \<and> cm < cs))"
      unfolding one[OF i] mone[OF i] zero[OF i] c by auto
  qed
  have al: "alternation_rule m s sg"
    unfolding alternation_rule_def
  proof (intro allI impI)
    fix i j
    assume h: "i < j \<and> j < length sg \<and> sg ! i = sg ! j \<and> sg ! i \<noteq> Some 0 \<and>
            (\<forall>k. i \<le> k \<and> k < j \<longrightarrow> m ! k \<noteq> None \<and> s ! k \<noteq> None \<and> m ! k \<noteq> s ! k)"
    then have ij: "i < j" and j': "j < length sg" and eq: "sg ! i = sg ! j" and nz: "sg ! i \<noteq> Some 0"
      and nt: "\<forall>k. i \<le> k \<and> k < j \<longrightarrow> m ! k \<noteq> None \<and> s ! k \<noteq> None \<and> m ! k \<noteq> s ! k"
      by blast+
    have j: "j < ?n" using j' sg(2) by simp
    have i: "i < ?n" and j1: "1 \<le> j" using ij j by simp_all
    have i1: "1 \<le> i"
    proof (rule ccontr)
      assume "\<not> 1 \<le> i"
      then have "i = 0" by simp
      with sgv i have "sg ! i = Some 0" by simp
      with nz show False by contradiction
    qed
    have si: "sg ! i = Some (of_int (cross_at m s i))" by (rule val[OF i1 i])
    have sj: "sg ! j = Some (of_int (cross_at m s j))" by (rule val[OF j1 j])
    have cij: "cross_at m s j = cross_at m s i"
      using eq unfolding si sj by simp
    have cnz: "cross_at m s i \<noteq> 0" using nz unfolding si by simp
    have inner: "sg ! k = Some (of_int (cross_at m s k))" if "i < k" "k < j" for k
      using that j i1 by (intro val) simp_all
    consider "cross_at m s i = 1" | "cross_at m s i = - 1"
      using cross_at_values[of m s i] cnz by blast
    then show "\<exists>k. i < k \<and> k < j \<and> sg ! k \<noteq> Some 0 \<and> sg ! k \<noteq> sg ! i"
    proof cases
      case 1
      from up_then_down[OF ij 1 _ nt] cij 1
      obtain k where k: "i < k" "k < j" "cross_at m s k = - 1" by auto
      have "sg ! k = Some (- 1)" using inner[OF k(1,2)] k(3) by simp
      moreover have "sg ! i = Some 1" using si 1 by simp
      ultimately have "sg ! k \<noteq> Some 0 \<and> sg ! k \<noteq> sg ! i" by simp
      with k show ?thesis by blast
    next
      case 2
      from down_then_up[OF ij 2 _ nt] cij 2
      obtain k where k: "i < k" "k < j" "cross_at m s k = 1" by auto
      have "sg ! k = Some 1" using inner[OF k(1,2)] k(3) by simp
      moreover have "sg ! i = Some (- 1)" using si 2 by simp
      ultimately have "sg ! k \<noteq> Some 0 \<and> sg ! k \<noteq> sg ! i" by simp
      with k show ?thesis by blast
    qed
  qed
  from rc sg(2) cr al show ?thesis by blast
qed

theorem generate_signals_crossover_witness:
  "distinct (index (frames example_store 0)) \<and>
   result_column cross_lib example_strategy example_store 0 ''MACD'' =
     Inr [None, None, Some 0, Some 1, Some 0, Some 1] \<and>
   result_column cross_lib example_strategy example_store 0 ''MACD_Signal'' =
     Inr [None, None, Some 1, Some 0, Some 1, Some 0] \<and>
   (\<exists>sg. result_column cross_lib example_strategy example_store 0 ''Signal'' = Inr sg \<and>
         length sg = length (index (frames example_store 0)) \<and>
         crossover_rule [None, None, Some 0, Some 1, Some 0, Some 1]
                        [None, None, Some 1, Some 0, Some 1, Some 0] sg \<and>
         alternation_rule [None, None, Some 0, Some 1, Some 0, Some 1]
                          [None, None, Some 1, Some 0, Some 1, Some 0] sg)"
proof -
  have d: "distinct (index (frames example_store 0))"
    by code_simp
  have m: "result_column cross_lib example_strategy example_store 0 ''MACD'' =
             Inr [None, None, Some 0, Some 1, Some 0, Some 1]"
    by code_simp
  have s: "result_column cross_lib example_strategy example_store 0 ''MACD_Signal'' =
             Inr [None, None, Some 1, Some 0, Some 1, Some 0]"
    by code_simp
  from generate_signals_crossover[OF d m s] d m s show ?thesis by blast
qed

text \<open>
  Claim C1 as stated fails. With \<open>tie_lib\<close> the MACD line is below the signal line
  at bar 3, above it at bar 4, equal to it at bar 5 and above it at bar 6 (bars
  counted from 1). The generator emits Buy at bar 4 and Buy again at bar 6,
  with Hold between them: the second Buy is emitted although the previous non-hold
  emission was already Buy, and no Sell separates the two.
\<close>

theorem generate_signals_repeats_buy:
  "result_column tie_lib example_strategy example_store 0 ''MACD'' =
     Inr [None, None, Some 0, Some 1, Some 0, Some 1] \<and>
   result_column tie_lib example_strategy example_store 0 ''MACD_Signal'' =
     Inr [None, None, Some 1, Some 0, Some 0, Some 0] \<and>
   result_column tie_lib example_strategy example_store 0 ''Signal'' =
     Inr [Some 0, Some 0, Some 0, Some 1, Some 0, Some 1]"
  by code_simp

text \<open>
  Claim C3, as the code has it. The position the strategy object holds takes three
  values, \<open>0\<close> (flat), \<open>1\<close> (long) and \<open>-1\<close> (short): started from one of them,
  \<open>generate_signals\<close> leaves it in one of them and writes only these into the Position
  column; and, for distinct row labels, every bar with a Sell signal has Position
  \<open>-1\<close> and every bar with a Buy signal has Position \<open>1\<close>.
\<close>

theorem position_values:
  fixes st :: "('k, 'v::linordered_idom) store"
  assumes p: "position self \<in> {- 1, 0, 1}"
    and run: "generate_signals talib self st a = Inr (self', st', r)"
  shows "position self' \<in> {- 1, 0, 1} \<and>
         (\<exists>sg ps. get_column (frames st' r) ''Signal'' = Inr sg \<and>
                  get_column (frames st' r) ''Position'' = Inr ps \<and>
                  set ps \<subseteq> {Some (- 1), Some 0, Some 1} \<and>
                  (distinct (index (frames st a)) \<longrightarrow>
                     (\<forall>i < length ps. (sg ! i = Some (- 1) \<longrightarrow> ps ! i = Some (- 1)) \<and>
                                      (sg ! i = Some 1 \<longrightarrow> ps ! i = Some 1))))"
proof -
  let ?df = "frames st a"
  let ?V = "{Some (- 1), Some 0, Some 1} :: 'v option set"
  from run obtain close where c: "get_column ?df ''Close'' = Inr close"
    by (auto simp: generate_signals_eq split: sum.splits)
  from run c obtain m s h where cm: "calculate_macd talib self (index ?df) close = Inr (m, s, h)"
    by (auto simp: generate_signals_eq split: sum.splits)
  let ?d0 = "init_frame ?df m s h"
  obtain d slf where f: "fold signal_step [1 ..< length (index ?df)] (?d0, self) = (d, slf)"
    by (cases "fold signal_step [1 ..< length (index ?df)] (?d0, self)")
  from run c cm f have fr: "frames st' r = d" and sl: "self' = slf"
    by (auto simp: generate_signals_eq Let_def)
  have p0: "\<exists>ps. map_of (columns ?d0) ''Position'' = Some ps \<and> set ps \<subseteq> ?V"
    by (auto simp: init_frame_def map_of_set_column)
  from fold_signal_step_positions[OF p p0 f] obtain ps where
    pos: "position slf \<in> {- 1, 0, 1}" and ps: "map_of (columns d) ''Position'' = Some ps" "set ps \<subseteq> ?V"
    by blast
  have "''Signal'' \<in> fst ` set (columns (frames st' r))"
    using generate_signals_frame[OF run, of 0] by (auto simp: computed_columns_def)
  then obtain sg where sg: "map_of (columns d) ''Signal'' = Some sg"
    unfolding fr by (metis map_of_eq_None_iff not_Some_eq)
  have rows: "\<forall>i < length ps. (sg ! i = Some (- 1) \<longrightarrow> ps ! i = Some (- 1)) \<and>
                               (sg ! i = Some 1 \<longrightarrow> ps ! i = Some 1)"
    if dist: "distinct (index ?df)"
  proof -
    let ?n = "length (index ?df)"
    from generate_signals_run[OF run dist] obtain m' s' where
      inv: "loop_inv (index ?df) m' s' self (max 1 ?n) (frames st' r, self')" by blast
    from inv sg ps(1) have sgv: "\<forall>j < ?n. sg ! j = Some (if 1 \<le> j then of_int (cross_at m' s' j) else 0)"
      and psv: "\<forall>j < ?n. ps ! j =
           Some (if 1 \<le> j \<and> defined_at m' s' j then of_int (run_position (position self) m' s' j) else 0)"
      and len: "length ps = ?n"
      unfolding fr by (auto simp: loop_inv_def)
    show ?thesis
    proof (intro allI impI conjI)
      fix i assume i: "i < length ps" and v: "sg ! i = Some (- 1)"
      from i len have i': "i < ?n" by simp
      from sgv i' v have i1: "1 \<le> i" by (cases "i = 0") auto
      with sgv i' v have "(of_int (cross_at m' s' i) :: 'v) = - 1" by simp
      then have "(of_int (cross_at m' s' i) :: 'v) = of_int (- 1)" by simp
      then have cr: "cross_at m' s' i = - 1" by (simp only: of_int_eq_iff)
      then have "defined_at m' s' i" "run_position (position self) m' s' i = - 1"
        using cross_at_defined_at[of m' s' i] run_position_cross[OF i1, of m' s' "position self"] by simp_all
      with psv i' i1 show "ps ! i = Some (- 1)" by simp
    next
      fix i assume i: "i < length ps" and v: "sg ! i = Some 1"
      from i len have i': "i < ?n" by simp
      from sgv i' v have i1: "1 \<le> i" by (cases "i = 0") auto
      with sgv i' v have "(of_int (cross_at m' s' i) :: 'v) = 1" by simp
      then have "(of_int (cross_at m' s' i) :: 'v) = of_int 1" by simp
      then have cr: "cross_at m' s' i = 1" by (simp only: of_int_eq_iff)
      then have "defined_at m' s' i" "run_position (position self) m' s' i = 1"
        using cross_at_defined_at[of m' s' i] run_position_cross[OF i1, of m' s' "position self"] by simp_all
      with psv i' i1 show "ps ! i = Some 1" by simp
    qed
  qed
  have g1: "get_column (frames st' r) ''Signal'' = Inr sg" using sg fr by (simp add: get_column_Inr)
  have g2: "get_column (frames st' r) ''Position'' = Inr ps" using ps(1) fr by (simp add: get_column_Inr)
  from pos sl g1 g2 ps(2) rows show ?thesis by blast
qed

theorem position_values_witness:
  "\<exists>self' st' r.
     position example_strategy \<in> {- 1, 0, 1} \<and>
     generate_signals trend_lib example_strategy example_store 0 = Inr (self', st', r) \<and>
     position self' \<in> {- 1, 0, 1} \<and>
     (\<exists>sg ps. get_column (frames st' r) ''Signal'' = Inr sg \<and>
              get_column (frames st' r) ''Position'' = Inr ps \<and>
              set ps \<subseteq> {Some (- 1), Some 0, Some 1} \<and>
              (distinct (index (frames example_store 0)) \<longrightarrow>
                 (\<forall>i < length ps. (sg ! i = Some (- 1) \<longrightarrow> ps ! i = Some (- 1)) \<and>
                                  (sg ! i = Some 1 \<longrightarrow> ps ! i = Some 1))))"
proof -
  have "\<not> isl (generate_signals trend_lib example_strategy example_store 0)"
    by code_simp
  then obtain self' st' r where
    run: "generate_signals trend_lib example_strategy example_store 0 = Inr (self', st', r)"
    by (cases "generate_signals trend_lib example_strategy example_store 0") auto
  have p: "position example_strategy \<in> {- 1, 0, 1}" by (simp add: example_strategy_def)
  from position_values[OF p run] p run show ?thesis by blast
qed

text \<open>
  Claim C3 as stated fails: a short position is recorded. With \<open>cross_lib\<close> the Position
  column holds \<open>-1\<close> at the fifth bar, where the MACD line falls below the signal line,
  and with \<open>trend_lib\<close> the strategy object is left with \<open>position = -1\<close>.
\<close>

theorem position_short_recorded:
  "result_column cross_lib example_strategy example_store 0 ''Position'' =
     Inr [Some 0, Some 0, Some 0, Some 1, Some (- 1), Some 1] \<and>
   final_strategy trend_lib example_strategy example_store 0 =
     Inr \<lparr>fast_period = 12, slow_period = 26, signal_period = 9, position = - 1, last_signal = None\<rparr>"
  by code_simp

text \<open>
  Claim C7. Let the generator run on a frame with the close prices \<open>P\<close>, and then, with
  the strategy object as the first run left it, on a frame with the close prices
  \<open>P @ Q\<close> (in any store; row labels distinct in both frames). If the lines the
  indicator library returns for \<open>P @ Q\<close> begin with the lines it returns for \<open>P\<close>,
  then the Signal column of the second run begins with the Signal column of the first.
\<close>

theorem signals_of_prefix:
  assumes carried: "final_strategy talib self st a = Inr self1"
    and first: "result_column talib self st a ''Signal'' = Inr sg"
    and second: "result_column talib self1 st2 b ''Signal'' = Inr sg'"
    and dist: "distinct (index (frames st a))" "distinct (index (frames st2 b))"
    and close: "get_column (frames st a) ''Close'' = Inr P"
               "get_column (frames st2 b) ''Close'' = Inr (P @ Q)"
    and lib: "talib P (fast_period self) (slow_period self) (signal_period self) = Inr (m, s, h)"
             "talib (P @ Q) (fast_period self) (slow_period self) (signal_period self) = Inr (m', s', h')"
    and causal: "take (length m) m' = m" "take (length s) s' = s"
  shows "take (length sg) sg' = sg"
proof -
  note per = final_strategy_periods[OF carried]
  from lib(2) per have lib2:
    "talib (P @ Q) (fast_period self1) (slow_period self1) (signal_period self1) = Inr (m', s', h')"
    by simp
  from result_signal_char[OF first dist(1) close(1) lib(1)] have
    l1: "length sg = length m" "length s = length m"
    and v1: "\<forall>j < length sg. sg ! j = Some (if 1 \<le> j then of_int (cross_at m s j) else 0)"
    by simp_all
  from result_signal_char[OF second dist(2) close(2) lib2] have
    l2: "length sg' = length m'" "length s' = length m'"
    and v2: "\<forall>j < length sg'. sg' ! j = Some (if 1 \<le> j then of_int (cross_at m' s' j) else 0)"
    by simp_all
  have "length (take (length m) m') = length m" by (simp only: causal(1))
  then have le: "length m \<le> length m'" by simp
  have nm: "m' ! j = m ! j" and ns: "s' ! j = s ! j" if "j < length m" for j
    using that causal l1(2) by (metis nth_take)+
  have cr: "cross_at m' s' j = cross_at m s j" if "j < length m" for j
  proof -
    have "j - 1 < length m" using that by simp
    then show ?thesis using that by (simp add: cross_at_def nm ns)
  qed
  show ?thesis
  proof (rule nth_equalityI)
    show "length (take (length sg) sg') = length sg" using l1 l2 le by simp
  next
    fix j assume "j < length (take (length sg) sg')"
    then have j: "j < length sg" "j < length sg'" by simp_all
    then have "take (length sg) sg' ! j = sg' ! j" by simp
    also have "\<dots> = Some (if 1 \<le> j then of_int (cross_at m' s' j) else 0)" using v2 j by simp
    also have "\<dots> = Some (if 1 \<le> j then of_int (cross_at m s j) else 0)" using cr j l1 by simp
    also have "\<dots> = sg ! j" using v1 j by simp
    finally show "take (length sg) sg' ! j = sg ! j" .
  qed
qed

theorem signals_of_prefix_witness:
  "final_strategy cross_lib example_strategy example_store 1 =
     Inr \<lparr>fast_period = 12, slow_period = 26, signal_period = 9, position = 1, last_signal = None\<rparr> \<and>
   result_column cross_lib example_strategy example_store 1 ''Signal'' =
     Inr [Some 0, Some 0, Some 0, Some 1] \<and>
   result_column cross_lib
       \<lparr>fast_period = 12, slow_period = 26, signal_period = 9, position = 1, last_signal = None\<rparr>
       example_store 0 ''Signal'' =
     Inr [Some 0, Some 0, Some 0, Some 1, Some (- 1), Some 1] \<and>
   distinct (index (frames example_store 1)) \<and> distinct (index (frames example_store 0)) \<and>
   get_column (frames example_store 1) ''Close'' = Inr [Some 10, Some 10, Some 10, Some 12] \<and>
   get_column (frames example_store 0) ''Close'' =
     Inr ([Some 10, Some 10, Some 10, Some 12] @ [Some 11, Some 13]) \<and>
   take (length [Some 0, Some 0, Some 0, Some (1::int)])
        [Some 0, Some 0, Some 0, Some 1, Some (- 1), Some 1] =
     [Some 0, Some 0, Some 0, Some (1::int)]"
proof -
  let ?self1 = "\<lparr>fast_period = 12, slow_period = 26, signal_period = 9, position = 1, last_signal = None\<rparr>"
  let ?P = "[Some 10, Some 10, Some 10, Some (12::int)]"
  let ?Q = "[Some 11, Some (13::int)]"
  have carried: "final_strategy cross_lib example_strategy example_store 1 = Inr ?self1"
    by code_simp
  have first: "result_column cross_lib example_strategy example_store 1 ''Signal'' =
      Inr [Some 0, Some 0, Some 0, Some 1]"
    by code_simp
  have second: "result_column cross_lib ?self1 example_store 0 ''Signal'' =
      Inr [Some 0, Some 0, Some 0, Some 1, Some (- 1), Some 1]"
    by code_simp
  have d1: "distinct (index (frames example_store 1))" by code_simp
  have d0: "distinct (index (frames example_store 0))" by code_simp
  have c1: "get_column (frames example_store 1) ''Close'' = Inr ?P" by code_simp
  have c0: "get_column (frames example_store 0) ''Close'' = Inr (?P @ ?Q)" by code_simp
  have l1: "cross_lib ?P (fast_period example_strategy) (slow_period example_strategy)
              (signal_period example_strategy) =
            Inr ([None, None, Some 0, Some 1], [None, None, Some 1, Some 0],
                 [None, None, Some (- 1), Some 1])"
    by (simp add: cross_lib_def)
  have l0: "cross_lib (?P @ ?Q) (fast_period example_strategy) (slow_period example_strategy)
              (signal_period example_strategy) =
            Inr ([None, None, Some 0, Some 1, Some 0, Some 1],
                 [None, None, Some 1, Some 0, Some 1, Some 0],
                 [None, None, Some (- 1), Some 1, Some (- 1), Some 1])"
    by (simp add: cross_lib_def)
  have t1: "take (length [None, None, Some 0, Some (1::int)]) [None, None, Some 0, Some 1, Some 0, Some 1] =
            [None, None, Some 0, Some 1]" by simp
  have t2: "take (length [None, None, Some 1, Some (0::int)]) [None, None, Some 1, Some 0, Some 1, Some 0] =
            [None, None, Some 1, Some 0]" by simp
  note concl = signals_of_prefix[OF carried first second d1 d0 c1 c0 l1 l0 t1 t2]
  show ?thesis by (intro conjI carried first second d1 d0 c1 c0 concl)
qed

text \<open>
  Claim C9. When \<open>generate_signals\<close> returns, the caller's frame, at its address \<open>a\<close>, is
  as it was, and so is every other object that was in the store; the returned frame
  is at an address that was not in use. It has the row labels of the caller's frame,
  it has the five computed columns, and every other column is the caller's.
\<close>

theorem generate_signals_copy:
  assumes run: "generate_signals talib self st a = Inr (self', st', r)"
    and live: "a < next_free st"
  shows "frames st' a = frames st a \<and> r \<noteq> a \<and> r = next_free st \<and>
         (\<forall>b. b < next_free st \<longrightarrow> frames st' b = frames st b) \<and>
         index (frames st' r) = index (frames st a) \<and>
         set computed_columns \<subseteq> fst ` set (columns (frames st' r)) \<and>
         (\<forall>name. name \<notin> set computed_columns \<longrightarrow>
            get_column (frames st' r) name = get_column (frames st a) name)"
proof -
  note f = generate_signals_frame[OF run, of 0]
  from f live have ra: "r \<noteq> a" by simp
  from f have other: "\<And>b. b < next_free st \<Longrightarrow> frames st' b = frames st b" by simp
  from f have mo: "\<forall>name. name \<notin> set computed_columns \<longrightarrow>
      map_of (columns (frames st' r)) name = map_of (columns (frames st a)) name"
    by blast
  have cols: "\<And>name. name \<notin> set computed_columns \<Longrightarrow>
      get_column (frames st' r) name = get_column (frames st a) name"
    by (simp add: get_column_def mo)
  from f ra other[OF live] other cols show ?thesis by blast
qed

theorem generate_signals_copy_witness:
  "\<exists>self' st' r.
     generate_signals cross_lib example_strategy example_store 0 = Inr (self', st', r) \<and>
     0 < next_free example_store \<and>
     frames st' 0 = frames example_store 0 \<and> r \<noteq> 0 \<and> r = next_free example_store \<and>
     (\<forall>b. b < next_free example_store \<longrightarrow> frames st' b = frames example_store b) \<and>
     index (frames st' r) = index (frames example_store 0) \<and>
     set computed_columns \<subseteq> fst ` set (columns (frames st' r)) \<and>
     (\<forall>name. name \<notin> set computed_columns \<longrightarrow>
        get_column (frames st' r) name = get_column (frames example_store 0) name)"
proof -
  have "\<not> isl (generate_signals cross_lib example_strategy example_store 0)"
    by code_simp
  then obtain self' st' r where
    run: "generate_signals cross_lib example_strategy example_store 0 = Inr (self', st', r)"
    by (cases "generate_signals cross_lib example_strategy example_store 0") auto
  have live: "0 < next_free example_store" by (simp add: example_store_def)
  from generate_signals_copy[OF run live] run live show ?thesis by blast
qed



section \<open>The backtest\<close>

text \<open>
  Claim C4. A Buy signal that arrives while a trade is open and a Sell signal that
  arrives while none is open make \<open>next\<close> place no order, so the step of the simulation
  leaves the account, cash and trades, as it was. Whatever the broker fills, a run
  that starts with at most one open trade never has more than one; the backtest
  starts with none.
\<close>

theorem no_op_keeps_one_position:
  fixes signals :: "'a::linordered_idom option list"
  shows "(signals \<noteq> [] \<and>
            (0 < open_trades acct \<and> last signals = Some 1 \<or>
             open_trades acct = 0 \<and> last signals = Some (- 1)) \<longrightarrow>
          strategy_next fast slow sig psize signals (0 < open_trades acct) = Inr None \<and>
          sim_step fast slow sig psize fill_buy fill_close signals acct = Inr acct) \<and>
         (open_trades acct \<le> 1 \<and>
          sim_run fast slow sig psize fill_buy fill_close signals ks acct = Inr acct' \<longrightarrow>
          open_trades acct' \<le> 1) \<and>
         (simulate fast slow sig psize fill_buy fill_close signals initial = Inr acct' \<longrightarrow>
          open_trades acct' \<le> 1)"
proof (intro conjI impI)
  assume h: "signals \<noteq> [] \<and>
            (0 < open_trades acct \<and> last signals = Some 1 \<or>
             open_trades acct = 0 \<and> last signals = Some (- 1))"
  then show n: "strategy_next fast slow sig psize signals (0 < open_trades acct) = Inr None"
    using strategy_next_long_buy[of signals fast slow sig psize]
      strategy_next_flat_sell[of signals fast slow sig psize] by auto
  then show "sim_step fast slow sig psize fill_buy fill_close signals acct = Inr acct"
    by (simp add: sim_step_def)
next
  assume "open_trades acct \<le> 1 \<and>
          sim_run fast slow sig psize fill_buy fill_close signals ks acct = Inr acct'"
  then have a: "open_trades acct \<le> 1"
    and b: "sim_run fast slow sig psize fill_buy fill_close signals ks acct = Inr acct'"
    by simp_all
  from sim_run_trades[OF b a] show "open_trades acct' \<le> 1" .
next
  assume "simulate fast slow sig psize fill_buy fill_close signals initial = Inr acct'"
  then have b: "sim_run fast slow sig psize fill_buy fill_close signals [1 ..< Suc (length signals)]
                  \<lparr>cash = initial, open_trades = 0\<rparr> = Inr acct'"
    by (simp add: simulate_def)
  have a: "open_trades \<lparr>cash = initial, open_trades = 0\<rparr> \<le> 1" by simp
  from sim_run_trades[OF b a] show "open_trades acct' \<le> 1" .
qed

theorem no_op_keeps_one_position_witness:
  "take 14 example_signals \<noteq> [] \<and>
   0 < open_trades \<lparr>cash = 92 :: int, open_trades = 1\<rparr> \<and>
   last (take 14 example_signals) = Some 1 \<and>
   strategy_next 2 3 2 (8 :: int) (take 14 example_signals)
     (0 < open_trades \<lparr>cash = 92 :: int, open_trades = 1\<rparr>) = Inr None \<and>
   sim_step 2 3 2 8 example_fill_buy example_fill_close (take 14 example_signals)
     \<lparr>cash = 92, open_trades = 1\<rparr> = Inr \<lparr>cash = 92, open_trades = 1\<rparr> \<and>
   simulate 2 3 2 8 example_fill_buy example_fill_close example_signals 100 =
     Inr \<lparr>cash = 93, open_trades = 1\<rparr> \<and>
   open_trades \<lparr>cash = 93 :: int, open_trades = 1\<rparr> \<le> 1"
proof -
  let ?acct = "\<lparr>cash = 92 :: int, open_trades = 1\<rparr>"
  let ?end = "\<lparr>cash = 93 :: int, open_trades = 1\<rparr>"
  have h1: "take 14 example_signals \<noteq> []" by code_simp
  have h2: "0 < open_trades ?acct" by simp
  have h3: "last (take 14 example_signals) = Some 1" by code_simp
  have h4: "simulate 2 3 2 8 example_fill_buy example_fill_close example_signals 100 = Inr ?end"
    by code_simp
  note t = no_op_keeps_one_position[where signals = "take 14 example_signals" and acct = ?acct
      and fast = 2 and slow = 3 and sig = 2 and psize = "8 :: int"
      and fill_buy = example_fill_buy and fill_close = example_fill_close]
  from t h1 h2 h3 have
    c1: "strategy_next 2 3 2 (8 :: int) (take 14 example_signals) (0 < open_trades ?acct) = Inr None"
    and c2: "sim_step 2 3 2 8 example_fill_buy example_fill_close (take 14 example_signals) ?acct = Inr ?acct"
    by blast+
  note u = no_op_keeps_one_position[where signals = example_signals and acct' = ?end
      and fast = 2 and slow = 3 and sig = 2 and psize = "8 :: int" and initial = 100
      and fill_buy = example_fill_buy and fill_close = example_fill_close]
  from u h4 have c3: "open_trades ?end \<le> 1" by blast
  show ?thesis by (intro conjI h1 h2 h3 c1 c2 h4 c3)
qed







end
